theory Spec2Isabelle
  imports Complex_Main
begin

section \<open>Python values used by audio\_synthesizer.py\<close>

text \<open>
  Every way the synthesizer can stop early is a value. The two \<open>sys.exit\<close> calls of
  the source (lines 231 and 362) are \<open>UnknownWordError\<close> and \<open>MissingUnitError\<close>, the
  names the specification gives them; the other constructors are the Python exceptions
  that the source can raise without catching them.
\<close>

datatype error =
    UnknownWordError string
  | MissingUnitError string
  | KeyError string
  | IndexError
  | ValueError
  | NameError

text \<open>
  The Python subscript \<open>xs[i]\<close>. An index from \<open>-len(xs)\<close> to \<open>-1\<close> is counted from
  the end of the list; an index outside \<open>-len(xs) .. len(xs)-1\<close> raises.
\<close>

definition item :: "'a list \<Rightarrow> int \<Rightarrow> error + 'a" where
  "item xs i =
     (if 0 \<le> i \<and> i < int (length xs) then Inr (xs ! nat i)
      else if i < 0 \<and> - int (length xs) \<le> i then Inr (xs ! nat (int (length xs) + i))
      else Inl IndexError)"

text \<open>\<open>s.startswith(w)\<close> and the substring test \<open>w in s\<close> on strings.\<close>

fun starts_with :: "string \<Rightarrow> string \<Rightarrow> bool" where
  "starts_with s [] = True"
| "starts_with [] (c # w) = False"
| "starts_with (a # s) (c # w) = (a = c \<and> starts_with s w)"

fun py_in :: "string \<Rightarrow> string \<Rightarrow> bool" where
  "py_in w [] = (w = [])"
| "py_in w (a # s) = (starts_with (a # s) w \<or> py_in w s)"

text \<open>\<open>string.punctuation\<close>, 32 characters.\<close>

definition string_punctuation :: string where
  "string_punctuation =
     ''!'' @ [CHR 0x22] @ ''#$%&'' @ [CHR 0x27] @ ''()*+,-./:;<=>?@['' @ [CHR 0x5C]
       @ '']^_'' @ [CHR 0x60] @ ''{|}~''"

text \<open>\<open>str.lower\<close> and \<open>str.isdigit\<close>, on ASCII characters.\<close>

definition lower_char :: "char \<Rightarrow> char" where
  "lower_char c =
     (case map_of (zip ''ABCDEFGHIJKLMNOPQRSTUVWXYZ'' ''abcdefghijklmnopqrstuvwxyz'') c of
        Some d \<Rightarrow> d
      | None \<Rightarrow> c)"

definition lower :: "string \<Rightarrow> string" where
  "lower s = map lower_char s"

definition isdigit :: "char \<Rightarrow> bool" where
  "isdigit c = (c \<in> set ''0123456789'')"

section \<open>The utterance\<close>

datatype reverse_mode = Words | Phones | Signal

text \<open>
  The command-line arguments read by \<open>Synth\<close>; \<open>play\<close>, \<open>outfile\<close> and the folder
  name only drive input and output.
\<close>

record args =
  spell :: bool
  reverse :: "reverse_mode option"
  volume :: "int option"
  crossfade :: bool

text \<open>The three index lists \<open>self.commas\<close>, \<open>self.stops\<close>, \<open>self.marks\<close>.\<close>

record markup =
  commas :: "int list"
  stops :: "int list"
  marks :: "int list"

definition no_markup :: markup where
  "no_markup = \<lparr>commas = [], stops = [], marks = []\<rparr>"

section \<open>phrase\_to\_words (lines 153--197)\<close>

text \<open>Lines 172--174: a \<open>"."\<close> between every two tokens.\<close>

fun interleave :: "string list \<Rightarrow> string list" where
  "interleave [] = []"
| "interleave [t] = [t]"
| "interleave (t # ts) = t # ''.'' # interleave ts"

text \<open>
  The three conditions of lines 179, 181 and 183, with Python's left-to-right
  evaluation of \<open>and\<close>: the neighbouring token is read only when the test before it
  holds, and reading it may raise \<open>IndexError\<close>.
\<close>

definition cond_comma :: "string list \<Rightarrow> nat \<Rightarrow> error + bool" where
  "cond_comma tokens i =
     (if py_in (tokens ! i) '','' then
        (case item tokens (int i - 1) of
           Inl e \<Rightarrow> Inl e
         | Inr prev \<Rightarrow> Inr (\<not> py_in prev ''...,;?!'' \<and> i > 0))
      else Inr False)"

definition cond_stop :: "string list \<Rightarrow> nat \<Rightarrow> error + bool" where
  "cond_stop tokens i =
     (if py_in (tokens ! i) ''...;?!'' then
        (case item tokens (int i - 1) of
           Inl e \<Rightarrow> Inl e
         | Inr prev \<Rightarrow> Inr (\<not> py_in prev ''...,;?!'' \<and> i > 0))
      else Inr False)"

definition cond_mark :: "string list \<Rightarrow> nat \<Rightarrow> error + bool" where
  "cond_mark tokens i =
     (if py_in (tokens ! i) ''{'' then
        (case item tokens (int i + 2) of
           Inl e \<Rightarrow> Inl e
         | Inr closing \<Rightarrow> Inr (py_in closing ''}''))
      else Inr False)"

text \<open>Lines 185--186: the punctuation counter.\<close>

definition count_punct :: "string \<Rightarrow> nat \<Rightarrow> nat" where
  "count_punct word counter =
     (if py_in word string_punctuation \<or> py_in word ''...'' then counter + 1 else counter)"

text \<open>The body of the \<open>try\<close> block for token \<open>i\<close>, lines 179--186.\<close>

definition scan_body :: "string list \<Rightarrow> markup \<times> nat \<Rightarrow> nat \<Rightarrow> error + markup \<times> nat" where
  "scan_body tokens st i =
     (let m = fst st; counter = snd st; word = tokens ! i in
      case cond_comma tokens i of
        Inl e \<Rightarrow> Inl e
      | Inr True \<Rightarrow>
          Inr (m\<lparr>commas := commas m @ [int i - int counter - 1]\<rparr>, count_punct word counter)
      | Inr False \<Rightarrow>
          (case cond_stop tokens i of
             Inl e \<Rightarrow> Inl e
           | Inr True \<Rightarrow>
               Inr (m\<lparr>stops := stops m @ [int i - int counter - 1]\<rparr>, count_punct word counter)
           | Inr False \<Rightarrow>
               (case cond_mark tokens i of
                  Inl e \<Rightarrow> Inl e
                | Inr True \<Rightarrow>
                    Inr (m\<lparr>marks := marks m @ [int i - int counter]\<rparr>, count_punct word counter)
                | Inr False \<Rightarrow> Inr (m, count_punct word counter))))"

text \<open>
  Lines 177--189: \<open>except IndexError: pass\<close> abandons the iteration. Nothing has been
  appended when a condition raises, so the state is the one before the iteration; any
  other exception would leave the loop.
\<close>

definition scan_step :: "string list \<Rightarrow> markup \<times> nat \<Rightarrow> nat \<Rightarrow> markup \<times> nat" where
  "scan_step tokens st i =
     (case scan_body tokens st i of
        Inl e \<Rightarrow> st
      | Inr st' \<Rightarrow> st')"

definition scan :: "string list \<Rightarrow> markup" where
  "scan tokens = fst (foldl (scan_step tokens) (no_markup, 0) [0..<length tokens])"

text \<open>
  \<open>phrase_to_words\<close>. The tokenizer \<open>word_tokenize\<close> of nltk is a collaborator and is
  passed in. The function fills the three index lists and returns the words.
\<close>

definition phrase_to_words :: "(string \<Rightarrow> string list) \<Rightarrow> bool \<Rightarrow> string \<Rightarrow> markup \<times> string list" where
  "phrase_to_words word_tokenize spell_flag phrase =
     (let p_lower = lower phrase;
          tokens_with_punc = word_tokenize p_lower;
          tokens_with_punc = (if spell_flag then interleave tokens_with_punc else tokens_with_punc);
          m = scan tokens_with_punc;
          letters = filter (\<lambda>l. l \<notin> set string_punctuation) p_lower;
          p_norm = letters;
          words = word_tokenize p_norm
      in (m, words))"

section \<open>Spelling and reversal (lines 103--125)\<close>

text \<open>\<open>words_to_letters\<close>: every letter of every word becomes a word of its own.\<close>

definition words_to_letters :: "string list \<Rightarrow> string list" where
  "words_to_letters ws = concat (map (map (\<lambda>letter. [letter])) ws)"

text \<open>The Python slice \<open>xs[0:k]\<close>; a negative \<open>k\<close> counts from the end.\<close>

definition slice_to :: "'a list \<Rightarrow> int \<Rightarrow> 'a list" where
  "slice_to xs k = (if k < 0 then take (nat (int (length xs) + k)) xs else take (nat k) xs)"

text \<open>Lines 109--111: \<open>sum(self.word_lengths[0:i+1])-1\<close>.\<close>

definition spell_index :: "nat list \<Rightarrow> int \<Rightarrow> int" where
  "spell_index word_lengths i = int (sum_list (slice_to word_lengths (i + 1))) - 1"

definition spell_markup :: "nat list \<Rightarrow> markup \<Rightarrow> markup" where
  "spell_markup word_lengths m =
     \<lparr>commas = map (spell_index word_lengths) (commas m),
      stops = map (spell_index word_lengths) (stops m),
      marks = map (spell_index word_lengths) (marks m)\<rparr>"

text \<open>Lines 117--119 and 134--136: \<open>len(self.words)-1-i\<close>.\<close>

definition mirror_markup :: "nat \<Rightarrow> markup \<Rightarrow> markup" where
  "mirror_markup n m =
     \<lparr>commas = map (\<lambda>i. int n - 1 - i) (commas m),
      stops = map (\<lambda>i. int n - 1 - i) (stops m),
      marks = map (\<lambda>i. int n - 1 - i) (marks m)\<rparr>"

text \<open>
  Lines 102--125 of \<open>__init__\<close>: the words and the index lists as they stand before the
  phones are looked up.
\<close>

definition prepare_words :: "(string \<Rightarrow> string list) \<Rightarrow> args \<Rightarrow> string \<Rightarrow> markup \<times> string list" where
  "prepare_words word_tokenize a phrase =
     (let (m, ws) = phrase_to_words word_tokenize (spell a) phrase;
          word_lengths = map length ws;
          (m, ws) = (if spell a then (spell_markup word_lengths m, words_to_letters ws) else (m, ws));
          (m, ws) = (if reverse a = Some Words then (mirror_markup (length (rev ws)) m, rev ws) else (m, ws));
          m = (if reverse a \<noteq> None \<and> spell a then no_markup else m)
      in (m, ws))"

section \<open>words\_to\_phones (lines 216--275)\<close>

definition pau :: string where
  "pau = ''pau''"

text \<open>\<open>preprocess_phones\<close>: stress digits removed, lower case.\<close>

definition preprocess_phones :: "string list \<Rightarrow> string list" where
  "preprocess_phones pre_word = map (\<lambda>phone. lower (filter (\<lambda>l. \<not> isdigit l) phone)) pre_word"

text \<open>
  The pronouncing dictionary \<open>cmudict.dict()\<close> maps a word to its list of
  pronunciations. \<open>pronounce\<close> is the expression \<open>cmudict.dict()[word][0]\<close>.
\<close>

type_synonym cmudict = "string \<rightharpoonup> string list list"

definition pronounce :: "cmudict \<Rightarrow> string \<Rightarrow> error + string list" where
  "pronounce d word =
     (case d word of
        None \<Rightarrow> Inl (KeyError word)
      | Some prons \<Rightarrow> item prons 0)"

text \<open>Lines 238--239 and 245--246: the first phone of the word after position \<open>i\<close>.\<close>

definition next_first_phone :: "cmudict \<Rightarrow> string list \<Rightarrow> nat \<Rightarrow> error + string" where
  "next_first_phone d ws i =
     (case item ws (int i + 1) of
        Inl e \<Rightarrow> Inl e
      | Inr next_word \<Rightarrow>
          (case pronounce d next_word of
             Inl e \<Rightarrow> Inl e
           | Inr pre \<Rightarrow> item (preprocess_phones pre) 0))"

text \<open>Lines 233--246: the phone list of the word at position \<open>i\<close>.\<close>

definition word_entry :: "cmudict \<Rightarrow> markup \<Rightarrow> string list \<Rightarrow> nat \<Rightarrow> string \<Rightarrow> error + string list" where
  "word_entry d m ws i word =
     (case pronounce d word of
        Inl e \<Rightarrow> Inl e
      | Inr pre \<Rightarrow>
          (let word_phones = preprocess_phones pre;
               paused = (int i \<in> set (commas m) \<or> int i \<in> set (stops m))
           in if length ws = 1 then Inr ([pau] @ word_phones @ [pau])
              else if i = 0 \<and> \<not> paused then
                (case next_first_phone d ws i of
                   Inl e \<Rightarrow> Inl e
                 | Inr p \<Rightarrow> Inr ([pau] @ word_phones @ [p]))
              else if i = 0 \<and> paused then Inr ([pau] @ word_phones @ [pau])
              else if paused \<or> int i = int (length ws) - 1 then Inr (word_phones @ [pau])
              else
                (case next_first_phone d ws i of
                   Inl e \<Rightarrow> Inl e
                 | Inr p \<Rightarrow> Inr (word_phones @ [p]))))"

text \<open>The loop of lines 229--246; \<open>sys.exit\<close> of line 231 is \<open>UnknownWordError\<close>.\<close>

fun words_to_phones_loop ::
  "cmudict \<Rightarrow> markup \<Rightarrow> string list \<Rightarrow> nat \<Rightarrow> string list \<Rightarrow> string list list \<Rightarrow> error + string list list"
where
  "words_to_phones_loop d m ws i [] phs = Inr phs"
| "words_to_phones_loop d m ws i (word # rest) phs =
     (if d word = None then Inl (UnknownWordError word)
      else
        (case word_entry d m ws i word of
           Inl e \<Rightarrow> Inl e
         | Inr ph \<Rightarrow> words_to_phones_loop d m ws (Suc i) rest (phs @ [ph])))"

definition words_to_phones :: "cmudict \<Rightarrow> markup \<Rightarrow> string list \<Rightarrow> error + string list list" where
  "words_to_phones d m ws = words_to_phones_loop d m ws 0 ws []"

section \<open>phones\_to\_diphones (lines 277--294)\<close>

definition word_diphones :: "string list \<Rightarrow> string list" where
  "word_diphones word = map (\<lambda>i. word ! i @ ''-'' @ word ! (i + 1)) [0..<length word - 1]"

definition phones_to_diphones :: "string list list \<Rightarrow> string list list" where
  "phones_to_diphones phs = map word_diphones phs"

section \<open>load\_diphone\_data (lines 296--322)\<close>

text \<open>The slice \<open>wav_file[9:-4]\<close>.\<close>

definition diphone_key :: "string \<Rightarrow> string" where
  "diphone_key wav_file = take (length wav_file - 4 - 9) (drop 9 wav_file)"

text \<open>
  The argument is the list of path strings that \<open>Path(wav_folder).glob('*.wav')\<close>
  yields; a later file with the same key replaces an earlier one.
\<close>

definition load_diphone_data :: "string list \<Rightarrow> (string \<rightharpoonup> string)" where
  "load_diphone_data all_diphone_wav_files =
     foldl (\<lambda>diphones_dict wav_file. diphones_dict(diphone_key wav_file \<mapsto> wav_file))
       Map.empty all_diphone_wav_files"

section \<open>diphones\_to\_wav (lines 324--411)\<close>

text \<open>
  A sample buffer is the \<open>data\<close> array of a \<open>simpleaudio.Audio\<close> object. The constants
  are those of lines 19--22: \<open>int(RATE*0.4)\<close>, \<open>int(RATE*0.2)\<close> and \<open>int(RATE*0.01)\<close>
  with \<open>RATE = 16000\<close>.
\<close>

type_synonym buffer = "int list"

definition ms400 :: nat where
  "ms400 = 6400"

definition ms200 :: nat where
  "ms200 = 3200"

definition ms10 :: nat where
  "ms10 = 160"

text \<open>
  The audio library is a collaborator: \<open>load\<close> gives the samples of a wav file,
  \<open>rescale\<close> is the method \<open>simpleaudio.Audio.rescale\<close>, and \<open>mix k c p\<close> is the sample
  that line 370 stores at position \<open>k\<close> of the window, the floating-point value of
  \<open>c*tapering[k] + p*tapering[::-1][k]\<close> converted to the sample type of the array.
\<close>

record audio =
  load :: "string \<Rightarrow> buffer"
  rescale :: "rat \<Rightarrow> buffer \<Rightarrow> buffer"
  mix :: "nat \<Rightarrow> int \<Rightarrow> int \<Rightarrow> int"

text \<open>
  Modelled from the spec: \<open>create_tone(0, n, 0)\<close> of the audio library, which is not
  part of the source file; the specification calls its result a silent buffer of
  \<open>n\<close> samples.
\<close>

definition silence :: "nat \<Rightarrow> buffer" where
  "silence n = replicate n 0"

text \<open>
  numpy pairs an array of length \<open>n\<close> with one of the same length or of length one,
  and raises \<open>ValueError\<close> for any other shape.
\<close>

definition np_broadcast :: "buffer \<Rightarrow> nat \<Rightarrow> error + buffer" where
  "np_broadcast xs n =
     (if length xs = n then Inr xs
      else if length xs = 1 then Inr (replicate n (hd xs))
      else Inl ValueError)"

text \<open>Line 370: the first 10 ms of the unit are overwritten by the blend.\<close>

definition taper :: "(nat \<Rightarrow> int \<Rightarrow> int \<Rightarrow> int) \<Rightarrow> buffer \<Rightarrow> buffer \<Rightarrow> error + buffer" where
  "taper mx data prev_diphone_last_10ms =
     (let window = take ms10 data in
      case np_broadcast window ms10 of
        Inl e \<Rightarrow> Inl e
      | Inr cur \<Rightarrow>
          (case np_broadcast prev_diphone_last_10ms ms10 of
             Inl e \<Rightarrow> Inl e
           | Inr prv \<Rightarrow>
               (let blended = map (\<lambda>k. mx k (cur ! k) (prv ! k)) [0..<ms10]
                in if length window = length blended then Inr (blended @ drop ms10 data)
                   else Inl ValueError)))"

text \<open>
  Lines 368--376 for one unit: \<open>first\<close> is \<open>j==0\<close>, \<open>last_of_all\<close> is
  \<open>j==len(word)-1 and i==len(self.diphones)-1\<close>. The result is the data to append and
  the value of \<open>prev_diphone_last_10ms\<close>, which is unbound (\<open>None\<close>) before its first
  assignment.
\<close>

definition crossfade_unit ::
  "audio \<Rightarrow> bool \<Rightarrow> bool \<Rightarrow> buffer \<Rightarrow> buffer option \<Rightarrow> error + buffer \<times> buffer option"
where
  "crossfade_unit lib first last_of_all data prev =
     (case (if \<not> first then
              (case prev of
                 None \<Rightarrow> Inl NameError
               | Some prev_diphone_last_10ms \<Rightarrow> taper (mix lib) data prev_diphone_last_10ms)
            else Inr data) of
        Inl e \<Rightarrow> Inl e
      | Inr data \<Rightarrow>
          (if \<not> last_of_all then
             Inr (take (length data - ms10) data, Some (drop (length data - ms10) data))
           else Inr (data, prev)))"

text \<open>
  The inner loop, lines 357--378, over the diphones of one word: \<open>n\<close> is \<open>len(word)\<close>,
  \<open>last_word\<close> is \<open>i==len(self.diphones)-1\<close>. \<open>sys.exit\<close> of line 362 is
  \<open>MissingUnitError\<close>.
\<close>

fun word_loop ::
  "audio \<Rightarrow> (string \<rightharpoonup> string) \<Rightarrow> bool \<Rightarrow> bool \<Rightarrow> nat \<Rightarrow> nat \<Rightarrow> string list \<Rightarrow> buffer \<Rightarrow> buffer option
     \<Rightarrow> error + buffer \<times> buffer option"
where
  "word_loop lib diphones_dict cf last_word n j [] word_audio prev = Inr (word_audio, prev)"
| "word_loop lib diphones_dict cf last_word n j (diphone # rest) word_audio prev =
     (case diphones_dict diphone of
        None \<Rightarrow> Inl (MissingUnitError diphone)
      | Some wav_file \<Rightarrow>
          (case (if cf then
                   crossfade_unit lib (j = 0) (int j = int n - 1 \<and> last_word) (load lib wav_file) prev
                 else Inr (load lib wav_file, prev)) of
             Inl e \<Rightarrow> Inl e
           | Inr (data, prev') \<Rightarrow>
               word_loop lib diphones_dict cf last_word n (Suc j) rest (word_audio @ data) prev'))"

text \<open>Lines 380--389: pauses and emphasis of word \<open>i\<close>.\<close>

definition finish_word :: "audio \<Rightarrow> markup \<Rightarrow> nat \<Rightarrow> buffer \<Rightarrow> buffer" where
  "finish_word lib m i word_audio =
     (let word_audio = (if int i \<in> set (commas m) then word_audio @ silence ms200 else word_audio);
          word_audio = (if int i \<in> set (stops m) then word_audio @ silence ms400 else word_audio);
          word_audio = (if int i \<in> set (marks m) then rescale lib 1 word_audio else word_audio)
      in word_audio)"

text \<open>The outer loop, lines 353--392; \<open>n_words\<close> is \<open>len(self.diphones)\<close>.\<close>

fun words_loop ::
  "audio \<Rightarrow> (string \<rightharpoonup> string) \<Rightarrow> bool \<Rightarrow> markup \<Rightarrow> nat \<Rightarrow> nat \<Rightarrow> string list list \<Rightarrow> buffer \<Rightarrow> buffer option
     \<Rightarrow> error + buffer"
where
  "words_loop lib diphones_dict cf m n_words i [] synth_audio prev = Inr synth_audio"
| "words_loop lib diphones_dict cf m n_words i (word # rest) synth_audio prev =
     (case word_loop lib diphones_dict cf (int i = int n_words - 1) (length word) 0 word [] prev of
        Inl e \<Rightarrow> Inl e
      | Inr (word_audio, prev') \<Rightarrow>
          words_loop lib diphones_dict cf m n_words (Suc i) rest
            (synth_audio @ finish_word lib m i word_audio) prev')"

text \<open>
  Lines 394--400. \<open>self.volume*0.01\<close> is a floating-point product; it is the exact
  value \<open>1.0\<close> for volume 100, and the model passes the exact quotient for every volume.
\<close>

definition apply_volume :: "audio \<Rightarrow> int option \<Rightarrow> buffer \<Rightarrow> buffer" where
  "apply_volume lib vol synth_audio =
     (case vol of
        None \<Rightarrow> synth_audio
      | Some v \<Rightarrow> rescale lib (of_int v / 100) synth_audio)"

definition apply_reverse :: "reverse_mode option \<Rightarrow> buffer \<Rightarrow> buffer" where
  "apply_reverse r synth_audio = (if r = Some Signal then rev synth_audio else synth_audio)"

definition diphones_to_wav ::
  "audio \<Rightarrow> args \<Rightarrow> markup \<Rightarrow> (string \<rightharpoonup> string) \<Rightarrow> string list list \<Rightarrow> error + buffer"
where
  "diphones_to_wav lib a m diphones_dict dps =
     (case words_loop lib diphones_dict (crossfade a) m (length dps) 0 dps [] None of
        Inl e \<Rightarrow> Inl e
      | Inr synth_audio \<Rightarrow> Inr (apply_reverse (reverse a) (apply_volume lib (volume a) synth_audio)))"

section \<open>The constructor of Synth (lines 83--151)\<close>

record collaborators =
  word_tokenize :: "string \<Rightarrow> string list"
  dictionary :: cmudict
  wav_files :: "string list"
  sound :: audio

record synth = markup +
  words :: "string list"
  phones :: "string list list"
  diphones :: "string list list"
  out :: buffer

definition synth_init :: "collaborators \<Rightarrow> args \<Rightarrow> string \<Rightarrow> error + synth" where
  "synth_init env a phrase =
     (let (m, ws) = prepare_words (word_tokenize env) a phrase in
      case words_to_phones (dictionary env) m ws of
        Inl e \<Rightarrow> Inl e
      | Inr phs \<Rightarrow>
          (let (m, phs) = (if reverse a = Some Phones
                           then (mirror_markup (length ws) m, map rev (rev phs)) else (m, phs));
               dps = phones_to_diphones phs;
               diphones_dict = load_diphone_data (wav_files env)
           in case diphones_to_wav (sound env) a m diphones_dict dps of
                Inl e \<Rightarrow> Inl e
              | Inr synth_audio \<Rightarrow>
                  Inr \<lparr>commas = commas m, stops = stops m, marks = marks m,
                       words = ws, phones = phs, diphones = dps, out = synth_audio\<rparr>))"

section \<open>The boundary policy as the specification words it\<close>

text \<open>
  \<open>phones(word)\<close> of the specification: the dictionary lookup with stress digits
  stripped and case lowered.
\<close>

definition spec_phones :: "cmudict \<Rightarrow> string \<Rightarrow> string list" where
  "spec_phones d word = preprocess_phones (hd (the (d word)))"

text \<open>
  The five cases of the per-word construction rule, for the word at position \<open>i\<close> among
  \<open>N\<close> words, in the order the specification lists them.
\<close>

definition boundary_policy :: "cmudict \<Rightarrow> markup \<Rightarrow> string list \<Rightarrow> nat \<Rightarrow> string list" where
  "boundary_policy d m ws i =
     (let N = length ws;
          in_pause_set = (int i \<in> set (commas m) \<or> int i \<in> set (stops m));
          first_of_next = hd (spec_phones d (ws ! (i + 1)))
      in if N = 1 then [pau] @ spec_phones d (ws ! i) @ [pau]
         else if i = 0 \<and> \<not> in_pause_set then [pau] @ spec_phones d (ws ! i) @ [first_of_next]
         else if i = 0 \<and> in_pause_set then [pau] @ spec_phones d (ws ! i) @ [pau]
         else if in_pause_set \<or> i = N - 1 then spec_phones d (ws ! i) @ [pau]
         else spec_phones d (ws ! i) @ [first_of_next])"

text \<open>A word the dictionary knows, with a first pronunciation that has a phone.\<close>

definition known_word :: "cmudict \<Rightarrow> string \<Rightarrow> bool" where
  "known_word d word = (case d word of Some (pron # prons) \<Rightarrow> pron \<noteq> [] | _ \<Rightarrow> False)"

section \<open>Measures of the assembled audio\<close>

text \<open>
  The number of samples of the unit of a diphone, a unit that exists and has the
  10 ms that the crossfade cuts off, and the number of units of a word of \<open>n\<close> diphones
  whose last 10 ms are held back: all of them, or all but the last in the last word.
\<close>

definition unit_length :: "audio \<Rightarrow> (string \<rightharpoonup> string) \<Rightarrow> string \<Rightarrow> nat" where
  "unit_length lib diphones_dict diphone = length (load lib (the (diphones_dict diphone)))"

definition unit_ok :: "audio \<Rightarrow> (string \<rightharpoonup> string) \<Rightarrow> string \<Rightarrow> bool" where
  "unit_ok lib diphones_dict diphone =
     (case diphones_dict diphone of
        None \<Rightarrow> False
      | Some wav_file \<Rightarrow> ms10 \<le> length (load lib wav_file))"

definition held_back :: "bool \<Rightarrow> nat \<Rightarrow> nat" where
  "held_back last_word n = (if last_word then n - 1 else n)"

text \<open>
  Modelled from the spec: \<open>simpleaudio.Audio.rescale\<close>, the method the source calls as
  \<open>rescale(1)\<close> for an emphasised word and as \<open>rescale(self.volume*0.01)\<close> for the volume,
  is not part of the source file. The specification describes the call for emphasis:
  rescale to maximum computes the factor that brings the loudest sample in the buffer
  to the full-scale value, then applies it uniformly. \<open>rescale_to_peak val\<close> brings the
  loudest sample to \<open>val\<close> times full scale, which is this description at \<open>val = 1\<close>, the
  full scale being that of 16-bit samples; \<open>to_sample\<close> is the conversion of a product
  to an integer sample, towards zero.
\<close>

definition full_scale :: int where
  "full_scale = 32767"

definition to_sample :: "rat \<Rightarrow> int" where
  "to_sample r = (if r < 0 then \<lceil>r\<rceil> else \<lfloor>r\<rfloor>)"

definition rescale_to_peak :: "rat \<Rightarrow> buffer \<Rightarrow> buffer" where
  "rescale_to_peak val data =
     (let peak = foldr (\<lambda>s acc. max \<bar>s\<bar> acc) data 0;
          f = val * of_int full_scale / of_int peak
      in map (\<lambda>s. to_sample (of_int s * f)) data)"

section \<open>Sample data\<close>

definition demo_dict :: cmudict where
  "demo_dict =
     [''hello'' \<mapsto> [[''HH'', ''AH0'', ''L'', ''OW1''], [''HH'', ''EH0'', ''L'', ''OW1'']],
      ''world'' \<mapsto> [[''W'', ''ER1'', ''L'', ''D'']],
      ''again'' \<mapsto> [[''AH0'', ''G'', ''EH1'', ''N'']]]"

text \<open>
  The results of \<open>word_tokenize\<close> on the phrases used below; the tokenizer separates
  words at spaces and sets every punctuation mark apart.
\<close>

definition demo_tokenize :: "string \<Rightarrow> string list" where
  "demo_tokenize s =
     (case map_of
        [(''hello xyzzy123'', [''hello'', ''xyzzy123'']),
         (''{hello,}.'', [''{'', ''hello'', '','', ''}'', ''.'']),
         (''hello'', [''hello'']),
         (''ok.'', [''ok'', ''.'']),
         (''ok'', [''ok''])] s of
        Some tokens \<Rightarrow> tokens
      | None \<Rightarrow> [])"

definition demo_audio :: audio where
  "demo_audio = \<lparr>load = (\<lambda>wav_file. []), rescale = (\<lambda>val data. data), mix = (\<lambda>k c p. c)\<rparr>"

definition demo_env :: collaborators where
  "demo_env = \<lparr>word_tokenize = demo_tokenize, dictionary = demo_dict, wav_files = [], sound = demo_audio\<rparr>"

definition plain_args :: args where
  "plain_args = \<lparr>spell = False, reverse = None, volume = None, crossfade = False\<rparr>"

definition spell_args :: args where
  "spell_args = \<lparr>spell = True, reverse = None, volume = None, crossfade = False\<rparr>"

text \<open>
  Two units of 200 samples each in the default folder, and a stand-in for the blend of
  line 370 in integer arithmetic.
\<close>

definition demo_mix :: "nat \<Rightarrow> int \<Rightarrow> int \<Rightarrow> int" where
  "demo_mix k c p = (c * int k + p * (159 - int k)) div 160"

definition demo_units :: audio where
  "demo_units =
     \<lparr>load = (\<lambda>wav_file. if wav_file = ''diphones/a-b.wav'' then replicate 200 7 else replicate 200 9),
      rescale = (\<lambda>val data. data),
      mix = demo_mix\<rparr>"

definition demo_wav_files :: "string list" where
  "demo_wav_files = [''diphones/a-b.wav'', ''diphones/c-d.wav'']"

definition crossfade_args :: args where
  "crossfade_args = \<lparr>spell = False, reverse = None, volume = None, crossfade = True\<rparr>"

text \<open>
  An audio library whose \<open>rescale\<close> is the one modelled from the specification.
\<close>

definition peak_units :: audio where
  "peak_units = \<lparr>load = (\<lambda>wav_file. [100, - 100]), rescale = rescale_to_peak, mix = demo_mix\<rparr>"

definition full_volume_args :: args where
  "full_volume_args = \<lparr>spell = False, reverse = None, volume = Some 100, crossfade = False\<rparr>"

text \<open>
  Wav files in a folder whose name is shorter than the default one, each named with
  five more characters than the diphone it is found under.
\<close>

definition shifted_wav_files :: "string list" where
  "shifted_wav_files = [''dip/xxxxxpau-ah.wav'', ''dip/xxxxxah-pau.wav'']"

section \<open>Verified properties\<close>

subsection \<open>The phoneme sequencer\<close>

lemma item_0_Inr: "item xs 0 = Inr x \<Longrightarrow> xs \<noteq> [] \<and> x = hd xs"
  by (cases xs) (auto simp: item_def Let_def split: if_splits)

lemma pronounce_Inr: "pronounce d w = Inr pre \<Longrightarrow> preprocess_phones pre = spec_phones d w"
  by (auto simp: pronounce_def spec_phones_def dest: item_0_Inr split: option.splits)

lemma item_Suc_Inr: "item ws (int i + 1) = Inr w \<Longrightarrow> w = ws ! (i + 1)"
  by (auto simp: item_def Let_def nat_add_distrib split: if_splits)

lemma next_first_phone_Inr:
  "next_first_phone d ws i = Inr p \<Longrightarrow> p = hd (spec_phones d (ws ! (i + 1)))"
  unfolding next_first_phone_def
  by (auto split: sum.splits dest!: item_Suc_Inr pronounce_Inr item_0_Inr)

lemma word_entry_policy:
  assumes "word_entry d m ws i word = Inr ph" and "i < length ws" and "ws ! i = word"
  shows "ph = boundary_policy d m ws i"
proof -
  from assms(1) obtain pre where pre: "pronounce d word = Inr pre"
    by (auto simp: word_entry_def split: sum.splits)
  have sp: "preprocess_phones pre = spec_phones d (ws ! i)"
    using pronounce_Inr [OF pre] assms(3) by simp
  have last: "(int i = int (length ws) - 1) = (i = length ws - 1)"
    using assms(2) by auto
  show ?thesis
    using assms(1) pre sp last
    by (auto simp: word_entry_def boundary_policy_def Let_def
             split: sum.splits if_splits dest!: next_first_phone_Inr)
qed

lemma words_to_phones_loop_policy:
  "words_to_phones_loop d m ws i rest acc = Inr phs \<Longrightarrow> rest = drop i ws
     \<Longrightarrow> phs = acc @ map (boundary_policy d m ws) [i..<length ws]"
proof (induction rest arbitrary: i acc)
  case Nil
  then show ?case by simp
next
  case (Cons word rest)
  from Cons.prems(2) have i: "i < length ws"
    by (cases "i < length ws") auto
  from Cons.prems(2) have "word # rest = ws ! i # drop (Suc i) ws"
    using Cons_nth_drop_Suc [OF i] by simp
  then have w: "ws ! i = word" and r: "rest = drop (Suc i) ws"
    by simp_all
  from Cons.prems(1) obtain ph where ph: "word_entry d m ws i word = Inr ph"
    and rec: "words_to_phones_loop d m ws (Suc i) rest (acc @ [ph]) = Inr phs"
    by (auto split: if_splits sum.splits)
  have "phs = (acc @ [ph]) @ map (boundary_policy d m ws) [Suc i..<length ws]"
    by (rule Cons.IH [OF rec r])
  moreover have "ph = boundary_policy d m ws i"
    by (rule word_entry_policy [OF ph i w])
  ultimately show ?case using i by (simp add: upt_conv_Cons)
qed

lemma known_word_pronounce:
  "known_word d w \<Longrightarrow> \<exists>pre. pronounce d w = Inr pre \<and> pre \<noteq> []"
  by (auto simp: known_word_def pronounce_def item_def split: option.splits list.splits)

lemma next_first_phone_total:
  assumes "\<forall>w\<in>set ws. known_word d w" and "i + 1 < length ws"
  shows "\<exists>p. next_first_phone d ws i = Inr p"
proof -
  have g: "item ws (int i + 1) = Inr (ws ! (i + 1))"
    using assms(2) by (simp add: item_def Let_def nat_add_distrib)
  from assms have "known_word d (ws ! (i + 1))" by simp
  then obtain pre where pre: "pronounce d (ws ! (i + 1)) = Inr pre" "pre \<noteq> []"
    using known_word_pronounce by blast
  then have "item (preprocess_phones pre) 0 = Inr (hd (preprocess_phones pre))"
    by (cases pre) (simp_all add: item_def preprocess_phones_def)
  with g pre show ?thesis by (simp add: next_first_phone_def)
qed

lemma word_entry_total:
  assumes "\<forall>w\<in>set ws. known_word d w" and "i < length ws" and "ws ! i = word"
  shows "\<exists>ph. word_entry d m ws i word = Inr ph"
proof -
  from assms have "known_word d word" by auto
  then obtain pre where pre: "pronounce d word = Inr pre"
    using known_word_pronounce by blast
  have nxt: "i + 1 < length ws \<Longrightarrow> \<exists>p. next_first_phone d ws i = Inr p"
    using next_first_phone_total [OF assms(1)] by simp
  have cases: "length ws = 1 \<or> i + 1 < length ws \<or> (length ws \<noteq> 1 \<and> i \<noteq> 0 \<and> int i = int (length ws) - 1)"
    using assms(2) by auto
  then show ?thesis
  proof (elim disjE)
    assume "length ws = 1"
    then show ?thesis using pre by (simp add: word_entry_def)
  next
    assume "i + 1 < length ws"
    then obtain p where "next_first_phone d ws i = Inr p" using nxt by blast
    then show ?thesis using pre by (auto simp: word_entry_def Let_def)
  next
    assume "length ws \<noteq> 1 \<and> i \<noteq> 0 \<and> int i = int (length ws) - 1"
    then show ?thesis using pre by (simp add: word_entry_def Let_def)
  qed
qed

lemma words_to_phones_loop_total:
  "\<forall>w\<in>set ws. known_word d w \<Longrightarrow> rest = drop i ws
     \<Longrightarrow> \<exists>phs. words_to_phones_loop d m ws i rest acc = Inr phs"
proof (induction rest arbitrary: i acc)
  case Nil
  then show ?case by simp
next
  case (Cons word rest)
  from Cons.prems(2) have i: "i < length ws"
    by (cases "i < length ws") auto
  from Cons.prems(2) have "word # rest = ws ! i # drop (Suc i) ws"
    using Cons_nth_drop_Suc [OF i] by simp
  then have w: "ws ! i = word" and r: "rest = drop (Suc i) ws"
    by simp_all
  from Cons.prems(1) i w have "known_word d word" by auto
  then have dw: "d word \<noteq> None" by (auto simp: known_word_def split: option.splits)
  obtain ph where ph: "word_entry d m ws i word = Inr ph"
    using word_entry_total [OF Cons.prems(1) i w] by blast
  show ?case
    using Cons.IH [OF Cons.prems(1) r, of "acc @ [ph]"] dw ph by simp
qed

lemma words_to_phones_loop_known:
  "words_to_phones_loop d m ws i rest acc = Inr phs \<Longrightarrow> \<forall>w\<in>set rest. d w \<noteq> None"
  by (induction rest arbitrary: i acc) (auto split: if_splits sum.splits)

text \<open>
  C1. Whenever \<open>words_to_phones\<close> returns, it returns one phone list per word, and the
  list of the word at position \<open>i\<close> is the one the five-case boundary policy gives:
  pause, phones, pause for a single word; pause, phones, first phone of word 1 for
  word 0 outside the comma and stop lists; pause, phones, pause for word 0 inside one
  of them; phones, pause for a later word inside one of them or the last word; phones,
  first phone of the next word otherwise. It does return when every word is known to
  the dictionary.
\<close>

theorem words_to_phones_boundary_policy:
  "(\<forall>phs. words_to_phones d m ws = Inr phs \<longrightarrow>
      length phs = length ws \<and> (\<forall>i<length ws. phs ! i = boundary_policy d m ws i))
   \<and> ((\<forall>w\<in>set ws. known_word d w) \<longrightarrow> (\<exists>phs. words_to_phones d m ws = Inr phs))"
proof -
  have policy: "length phs = length ws \<and> (\<forall>i<length ws. phs ! i = boundary_policy d m ws i)"
    if "words_to_phones d m ws = Inr phs" for phs
  proof -
    from that have "phs = map (boundary_policy d m ws) [0..<length ws]"
      using words_to_phones_loop_policy [of d m ws 0 ws "[]" phs] by (simp add: words_to_phones_def)
    then show ?thesis by simp
  qed
  have returns: "\<exists>phs. words_to_phones d m ws = Inr phs" if "\<forall>w\<in>set ws. known_word d w"
    using words_to_phones_loop_total [OF that, of ws 0 m "[]"] by (simp add: words_to_phones_def)
  from policy returns show ?thesis by blast
qed

lemma demo_words_to_phones:
  "words_to_phones demo_dict \<lparr>commas = [0], stops = [2], marks = []\<rparr> [''hello'', ''world'', ''again'']
     = Inr [[''pau'', ''hh'', ''ah'', ''l'', ''ow'', ''pau''],
            [''w'', ''er'', ''l'', ''d'', ''ah''],
            [''ah'', ''g'', ''eh'', ''n'', ''pau'']]"
  by code_simp

theorem words_to_phones_boundary_policy_witness:
  "list_all (known_word demo_dict) [''hello'', ''world'', ''again'']
   \<and> words_to_phones demo_dict \<lparr>commas = [0], stops = [2], marks = []\<rparr> [''hello'', ''world'', ''again'']
       = Inr [[''pau'', ''hh'', ''ah'', ''l'', ''ow'', ''pau''],
              [''w'', ''er'', ''l'', ''d'', ''ah''],
              [''ah'', ''g'', ''eh'', ''n'', ''pau'']]
   \<and> boundary_policy demo_dict \<lparr>commas = [0], stops = [2], marks = []\<rparr> [''hello'', ''world'', ''again''] 1
       = [''w'', ''er'', ''l'', ''d'', ''ah'']"
proof -
  let ?m = "\<lparr>commas = [0], stops = [2], marks = []\<rparr>"
  let ?ws = "[''hello'', ''world'', ''again'']"
  have k: "\<forall>w\<in>set ?ws. known_word demo_dict w"
    by (simp add: known_word_def demo_dict_def)
  have r: "words_to_phones demo_dict ?m ?ws
       = Inr [[''pau'', ''hh'', ''ah'', ''l'', ''ow'', ''pau''],
              [''w'', ''er'', ''l'', ''d'', ''ah''],
              [''ah'', ''g'', ''eh'', ''n'', ''pau'']]"
    by (rule demo_words_to_phones)
  from words_to_phones_boundary_policy [of demo_dict ?m ?ws] r
  have "boundary_policy demo_dict ?m ?ws 1 = [''w'', ''er'', ''l'', ''d'', ''ah'']"
    by auto
  moreover from k have "list_all (known_word demo_dict) ?ws"
    by (simp add: list_all_iff)
  ultimately show ?thesis using r by blast
qed

subsection \<open>The diphone decomposer\<close>

lemma word_diphones_zip:
  "word_diphones word = map (\<lambda>(a, b). a @ ''-'' @ b) (zip word (tl word))"
  by (rule nth_equalityI) (simp_all add: word_diphones_def nth_tl)

text \<open>
  C2. \<open>phones_to_diphones\<close> gives one label list per word. For the phone list
  \<open>p0, p1, ..., pk\<close> of a word the labels are \<open>p0-p1, p1-p2, ..., p(k-1)-pk\<close> in this
  order, the pairs of neighbours: a word of \<open>k+1\<close> phones has \<open>k\<close> labels, and a word of
  fewer than two phones has none.
\<close>

theorem phones_to_diphones_adjacent_pairs:
  "length (phones_to_diphones phs) = length phs
   \<and> (\<forall>w<length phs.
        phones_to_diphones phs ! w = map (\<lambda>(a, b). a @ ''-'' @ b) (zip (phs ! w) (tl (phs ! w)))
        \<and> length (phones_to_diphones phs ! w) = length (phs ! w) - 1
        \<and> (\<forall>i. i + 1 < length (phs ! w) \<longrightarrow>
              phones_to_diphones phs ! w ! i = phs ! w ! i @ ''-'' @ phs ! w ! (i + 1))
        \<and> (length (phs ! w) < 2 \<longrightarrow> phones_to_diphones phs ! w = []))"
proof -
  have pairs: "word_diphones word ! i = word ! i @ ''-'' @ word ! (i + 1)"
    if "i + 1 < length word" for word i
  proof -
    from that have "i < length word - 1" by simp
    then show ?thesis by (simp add: word_diphones_def)
  qed
  have short: "word_diphones word = []" if "length word < 2" for word
    using that by (simp add: word_diphones_def)
  have len: "length (word_diphones word) = length word - 1" for word
    by (simp add: word_diphones_def)
  show ?thesis
    using pairs short len word_diphones_zip by (simp add: phones_to_diphones_def)
qed

theorem phones_to_diphones_adjacent_pairs_witness:
  "phones_to_diphones [[''pau'', ''hh'', ''ay'', ''pau''], [''pau'']] ! 0 = [''pau-hh'', ''hh-ay'', ''ay-pau'']
   \<and> length (phones_to_diphones [[''pau'', ''hh'', ''ay'', ''pau''], [''pau'']] ! 0) = 3
   \<and> phones_to_diphones [[''pau'', ''hh'', ''ay'', ''pau''], [''pau'']] ! 1 = []"
  using phones_to_diphones_adjacent_pairs [of "[[''pau'', ''hh'', ''ay'', ''pau''], [''pau'']]"]
  by (simp add: All_less_Suc numeral_2_eq_2)

subsection \<open>The markup extractor\<close>

text \<open>
  C6. The comma and stop lists are not always disjoint. The tokens of the phrase
  \<open>{hello,}.\<close> are an opening brace, the word, a comma, a closing brace and a full
  stop. The comma is recorded for word 0. The closing brace is counted as punctuation,
  but it is not one of the marks \<open>...,;?!\<close> that line 181 looks for in the token before
  the full stop, so the full stop is recorded for word 0 as well, although the comment
  of line 175 says that only the first punctuation between words is considered.
\<close>

theorem scan_comma_bracket_stop_overlap:
  "scan [''{'', ''hello'', '','', ''}'', ''.''] = \<lparr>commas = [0], stops = [0], marks = []\<rparr>
   \<and> phrase_to_words demo_tokenize False ''{hello,}.''
       = (\<lparr>commas = [0], stops = [0], marks = []\<rparr>, [''hello''])
   \<and> set (commas (scan [''{'', ''hello'', '','', ''}'', ''.'']))
        \<inter> set (stops (scan [''{'', ''hello'', '','', ''}'', ''.''])) = {0}"
proof -
  have s: "scan [''{'', ''hello'', '','', ''}'', ''.''] = \<lparr>commas = [0], stops = [0], marks = []\<rparr>"
    by code_simp
  have p: "phrase_to_words demo_tokenize False ''{hello,}.''
       = (\<lparr>commas = [0], stops = [0], marks = []\<rparr>, [''hello''])"
    by code_simp
  from s p show ?thesis by simp
qed

subsection \<open>Unknown words\<close>

text \<open>
  Whatever stops the loop, no phone lists are returned when a word is unknown: every
  word of a returned utterance passed the check of line 230.
\<close>

lemma unknown_word_no_phones:
  assumes "w \<in> set ws" and "d w = None"
  shows "\<exists>e. words_to_phones d m ws = Inl e"
proof (cases "words_to_phones d m ws")
  case (Inl e)
  then show ?thesis by blast
next
  case (Inr phs)
  then have "\<forall>w\<in>set ws. d w \<noteq> None"
    using words_to_phones_loop_known [of d m ws 0 ws "[]" phs] by (simp add: words_to_phones_def)
  with assms show ?thesis by blast
qed

text \<open>
  C9. An unknown word does not always end the synthesis through the check of line 230.
  In \<open>hello xyzzy123\<close> the first word is known, is not followed by a pause and is not
  the last word, so line 238 looks the second word up for its first phone before the
  loop reaches it, and the lookup raises \<open>KeyError\<close>. When the unknown word comes
  first, line 231 is reached and the result is \<open>UnknownWordError\<close>.
\<close>

theorem unknown_second_word_KeyError:
  "words_to_phones demo_dict no_markup [''hello'', ''xyzzy123''] = Inl (KeyError ''xyzzy123'')
   \<and> synth_init demo_env plain_args ''hello xyzzy123'' = Inl (KeyError ''xyzzy123'')
   \<and> words_to_phones demo_dict no_markup [''xyzzy123'', ''hello''] = Inl (UnknownWordError ''xyzzy123'')"
proof -
  have a: "words_to_phones demo_dict no_markup [''hello'', ''xyzzy123''] = Inl (KeyError ''xyzzy123'')"
    by code_simp
  have b: "prepare_words demo_tokenize plain_args ''hello xyzzy123'' = (no_markup, [''hello'', ''xyzzy123''])"
    by code_simp
  have c: "words_to_phones demo_dict no_markup [''xyzzy123'', ''hello''] = Inl (UnknownWordError ''xyzzy123'')"
    by code_simp
  from a b have "synth_init demo_env plain_args ''hello xyzzy123'' = Inl (KeyError ''xyzzy123'')"
    by (simp add: synth_init_def demo_env_def)
  with a c show ?thesis by simp
qed

subsection \<open>Spelling\<close>

lemma words_to_letters_concat: "words_to_letters ws = map (\<lambda>letter. [letter]) (concat ws)"
  by (simp add: words_to_letters_def map_concat)

lemma spell_index_in_range:
  "i < length ws \<Longrightarrow> spell_index (map length ws) (int i) = int (length (concat (take (Suc i) ws))) - 1"
  by (simp add: spell_index_def slice_to_def length_concat take_map nat_add_distrib)

lemma last_letter_position:
  assumes "i < length ws" and "ws ! i \<noteq> []"
  shows "concat ws ! (length (concat (take (Suc i) ws)) - 1) = last (ws ! i)"
    and "length (concat (take (Suc i) ws)) - 1 < length (concat ws)"
    and "0 < length (concat (take (Suc i) ws))"
proof -
  let ?pre = "concat (take i ws)"
  have split: "concat ws = ?pre @ ws ! i @ concat (drop (Suc i) ws)"
    using assms(1) by (metis append_take_drop_id concat_append Cons_nth_drop_Suc concat.simps(2))
  have upto: "concat (take (Suc i) ws) = ?pre @ ws ! i"
    using assms(1) by (simp add: take_Suc_conv_app_nth)
  have pos: "length (concat (take (Suc i) ws)) - 1 = length ?pre + (length (ws ! i) - 1)"
    using assms(2) upto by (cases "ws ! i") simp_all
  show "0 < length (concat (take (Suc i) ws))"
    using assms(2) upto by simp
  show "length (concat (take (Suc i) ws)) - 1 < length (concat ws)"
    using assms(2) unfolding pos by (subst split) (cases "ws ! i", simp_all)
  have "concat ws ! (length ?pre + (length (ws ! i) - 1)) = (ws ! i @ concat (drop (Suc i) ws)) ! (length (ws ! i) - 1)"
    by (subst split) (simp only: nth_append_length_plus)
  also have "\<dots> = (ws ! i) ! (length (ws ! i) - 1)"
    using assms(2) by (simp add: nth_append)
  also have "\<dots> = last (ws ! i)"
    using assms(2) by (simp add: last_conv_nth)
  finally show "concat ws ! (length (concat (take (Suc i) ws)) - 1) = last (ws ! i)"
    unfolding pos .
qed

lemma spell_index_last_letter:
  assumes "i < length ws" and "ws ! i \<noteq> []"
  shows "item (words_to_letters ws) (spell_index (map length ws) (int i)) = Inr [last (ws ! i)]"
proof -
  let ?k = "length (concat (take (Suc i) ws)) - 1"
  have minus: "int n - 1 = int (n - 1)" if "0 < n" for n :: nat
    using that by simp
  have k: "spell_index (map length ws) (int i) = int ?k"
    unfolding spell_index_in_range [OF assms(1)]
    by (rule minus) (rule last_letter_position(3) [OF assms])
  have "item (words_to_letters ws) (int ?k) = Inr (words_to_letters ws ! ?k)"
    using last_letter_position(2) [OF assms] by (simp add: item_def words_to_letters_concat)
  also have "words_to_letters ws ! ?k = [last (ws ! i)]"
    using last_letter_position(1,2) [OF assms] by (simp add: words_to_letters_concat)
  finally show ?thesis using k by simp
qed

lemma scan_ok: "scan (interleave [''ok'', ''.'']) = \<lparr>commas = [], stops = [0], marks = []\<rparr>"
  by code_simp

lemma lower_ok: "lower ''ok.'' = ''ok.''"
  by code_simp

lemma strip_ok: "filter (\<lambda>l. l \<notin> set string_punctuation) ''ok.'' = ''ok''"
  by code_simp

lemma prepare_words_spell_any:
  assumes "spell a"
  shows "prepare_words tok a phrase =
           (if reverse a = None
            then spell_markup (map length (snd (phrase_to_words tok True phrase)))
                   (fst (phrase_to_words tok True phrase))
            else no_markup,
            if reverse a = Some Words
            then rev (words_to_letters (snd (phrase_to_words tok True phrase)))
            else words_to_letters (snd (phrase_to_words tok True phrase)))"
  using assms by (simp add: prepare_words_def Let_def split_beta)

lemma phrase_to_words_ok:
  assumes "tok ''ok.'' = [''ok'', ''.'']" and "tok ''ok'' = [''ok'']"
  shows "phrase_to_words tok True ''ok.'' = (\<lparr>commas = [], stops = [0], marks = []\<rparr>, [''ok''])"
  using assms scan_ok lower_ok strip_ok by (simp add: phrase_to_words_def Let_def)

text \<open>
  C7, as amended. With \<open>spell\<close> set the words are replaced by the letters of all words
  in order, reversed when the reverse mode is \<open>words\<close>. When no reverse mode is given,
  every index \<open>i\<close> of the comma, stop and mark lists is replaced by
  \<open>sum(lengths[0..i+1]) - 1\<close>; with any reverse mode lines 122--125 empty the three
  lists instead. For a position \<open>i\<close> of a non-empty word the new index is the sum of the
  lengths of the words up to \<open>i\<close>, less one, and the letter found there is the last
  letter of word \<open>i\<close>. For the phrase \<open>ok.\<close>, tokenized into the word and the full stop,
  the words become \<open>o\<close>, \<open>k\<close> and, with no reverse mode, the stop list holds index 1.
\<close>

theorem spell_remaps_unless_reversed:
  "(spell a \<longrightarrow>
      prepare_words tok a phrase =
        (let (m, ws) = phrase_to_words tok True phrase;
             letters = concat (map (map (\<lambda>letter. [letter])) ws)
         in (if reverse a = None
             then \<lparr>commas = map (spell_index (map length ws)) (commas m),
                   stops = map (spell_index (map length ws)) (stops m),
                   marks = map (spell_index (map length ws)) (marks m)\<rparr>
             else \<lparr>commas = [], stops = [], marks = []\<rparr>,
             if reverse a = Some Words then rev letters else letters)))
   \<and> (\<forall>i<length ws. ws ! i \<noteq> [] \<longrightarrow>
        spell_index (map length ws) (int i) = int (sum_list (map length (take (i + 1) ws))) - 1
        \<and> item (words_to_letters ws) (spell_index (map length ws) (int i)) = Inr [last (ws ! i)])
   \<and> (spell a \<and> tok ''ok.'' = [''ok'', ''.''] \<and> tok ''ok'' = [''ok''] \<longrightarrow>
        prepare_words tok a ''ok.'' =
          (if reverse a = None then \<lparr>commas = [], stops = [1], marks = []\<rparr>
           else \<lparr>commas = [], stops = [], marks = []\<rparr>,
           if reverse a = Some Words then [''k'', ''o''] else [''o'', ''k'']))"
proof -
  have c1: "spell a \<longrightarrow>
      prepare_words tok a phrase =
        (let (m, ws) = phrase_to_words tok True phrase;
             letters = concat (map (map (\<lambda>letter. [letter])) ws)
         in (if reverse a = None
             then \<lparr>commas = map (spell_index (map length ws)) (commas m),
                   stops = map (spell_index (map length ws)) (stops m),
                   marks = map (spell_index (map length ws)) (marks m)\<rparr>
             else \<lparr>commas = [], stops = [], marks = []\<rparr>,
             if reverse a = Some Words then rev letters else letters))"
    using prepare_words_spell_any [of a tok phrase]
    by (simp add: split_beta Let_def spell_markup_def words_to_letters_def no_markup_def)
  have c2: "\<forall>i<length ws. ws ! i \<noteq> [] \<longrightarrow>
        spell_index (map length ws) (int i) = int (sum_list (map length (take (i + 1) ws))) - 1
        \<and> item (words_to_letters ws) (spell_index (map length ws) (int i)) = Inr [last (ws ! i)]"
    using spell_index_in_range [of _ ws] spell_index_last_letter [of _ ws]
    by (simp add: length_concat)
  have c3: "spell a \<and> tok ''ok.'' = [''ok'', ''.''] \<and> tok ''ok'' = [''ok''] \<longrightarrow>
        prepare_words tok a ''ok.'' =
          (if reverse a = None then \<lparr>commas = [], stops = [1], marks = []\<rparr>
           else \<lparr>commas = [], stops = [], marks = []\<rparr>,
           if reverse a = Some Words then [''k'', ''o''] else [''o'', ''k''])"
  proof
    assume h: "spell a \<and> tok ''ok.'' = [''ok'', ''.''] \<and> tok ''ok'' = [''ok'']"
    then have p: "phrase_to_words tok True ''ok.'' = (\<lparr>commas = [], stops = [0], marks = []\<rparr>, [''ok''])"
      using phrase_to_words_ok [of tok] by simp
    have "spell_index [Suc (Suc 0)] 0 = 1"
      by (simp add: spell_index_def slice_to_def)
    then show "prepare_words tok a ''ok.'' =
          (if reverse a = None then \<lparr>commas = [], stops = [1], marks = []\<rparr>
           else \<lparr>commas = [], stops = [], marks = []\<rparr>,
           if reverse a = Some Words then [''k'', ''o''] else [''o'', ''k''])"
      using h p prepare_words_spell_any [of a tok "''ok.''"]
      by (simp add: spell_markup_def words_to_letters_def no_markup_def)
  qed
  from c1 c2 c3 show ?thesis by (intro conjI)
qed

theorem spell_remaps_unless_reversed_witness:
  "spell spell_args \<and> reverse spell_args = None
   \<and> demo_tokenize ''ok.'' = [''ok'', ''.''] \<and> demo_tokenize ''ok'' = [''ok'']
   \<and> prepare_words demo_tokenize spell_args ''ok.'' = (\<lparr>commas = [], stops = [1], marks = []\<rparr>, [''o'', ''k''])
   \<and> prepare_words demo_tokenize (spell_args\<lparr>reverse := Some Words\<rparr>) ''ok.''
       = (\<lparr>commas = [], stops = [], marks = []\<rparr>, [''k'', ''o''])
   \<and> spell_index (map length [''hello'', ''ok'']) 1 = 6
   \<and> item (words_to_letters [''hello'', ''ok'']) (spell_index (map length [''hello'', ''ok'']) 1) = Inr ''k''"
proof -
  have t: "demo_tokenize ''ok.'' = [''ok'', ''.'']" "demo_tokenize ''ok'' = [''ok'']"
    by (simp_all add: demo_tokenize_def)
  have a: "spell spell_args" "reverse spell_args = None"
    by (simp_all add: spell_args_def)
  have a': "spell (spell_args\<lparr>reverse := Some Words\<rparr>)"
    "reverse (spell_args\<lparr>reverse := Some Words\<rparr>) = Some Words"
    by (simp_all add: spell_args_def)
  note inst = spell_remaps_unless_reversed [of spell_args demo_tokenize "''ok.''" "[''hello'', ''ok'']"]
  note inst' = spell_remaps_unless_reversed
    [of "spell_args\<lparr>reverse := Some Words\<rparr>" demo_tokenize "''ok.''" "[''hello'', ''ok'']"]
  have ante: "spell spell_args \<and> demo_tokenize ''ok.'' = [''ok'', ''.''] \<and> demo_tokenize ''ok'' = [''ok'']"
    using a(1) t by (intro conjI)
  have ante': "spell (spell_args\<lparr>reverse := Some Words\<rparr>)
      \<and> demo_tokenize ''ok.'' = [''ok'', ''.''] \<and> demo_tokenize ''ok'' = [''ok'']"
    using a'(1) t by (intro conjI)
  have p: "prepare_words demo_tokenize spell_args ''ok.'' = (\<lparr>commas = [], stops = [1], marks = []\<rparr>, [''o'', ''k''])"
    using inst [THEN conjunct2, THEN conjunct2, THEN mp, OF ante] a(2) by simp
  have p': "prepare_words demo_tokenize (spell_args\<lparr>reverse := Some Words\<rparr>) ''ok.''
       = (\<lparr>commas = [], stops = [], marks = []\<rparr>, [''k'', ''o''])"
    using inst' [THEN conjunct2, THEN conjunct2, THEN mp, OF ante'] a'(2) by simp
  have pre: "(1::nat) < length [''hello'', ''ok'']" "[''hello'', ''ok''] ! 1 \<noteq> []"
    by simp_all
  from inst [THEN conjunct2, THEN conjunct1] pre have
    "spell_index (map length [''hello'', ''ok'']) (int 1) = int (sum_list (map length (take (1 + 1) [''hello'', ''ok'']))) - 1
     \<and> item (words_to_letters [''hello'', ''ok'']) (spell_index (map length [''hello'', ''ok'']) (int 1)) = Inr [last ([''hello'', ''ok''] ! 1)]"
    by blast
  then have q1: "spell_index (map length [''hello'', ''ok'']) 1 = 6"
    by simp
  have "item (words_to_letters [''hello'', ''ok'']) 6 = Inr ''k''"
    by (simp add: item_def words_to_letters_def)
  with q1 have q: "spell_index (map length [''hello'', ''ok'']) 1 = 6
     \<and> item (words_to_letters [''hello'', ''ok'']) (spell_index (map length [''hello'', ''ok'']) 1) = Inr ''k''"
    by simp
  from t a p p' q show ?thesis by blast
qed

text \<open>
  The claim C7 as stated speaks of every utterance with \<open>spell\<close> set. With \<open>spell\<close> and
  the reverse mode \<open>signal\<close> the phrase \<open>ok.\<close> is spelled \<open>o\<close>, \<open>k\<close>, but the stop list
  is empty and does not hold index 1.
\<close>

theorem spell_with_reverse_counterexample:
  "spell (spell_args\<lparr>reverse := Some Signal\<rparr>)
   \<and> prepare_words demo_tokenize (spell_args\<lparr>reverse := Some Signal\<rparr>) ''ok.''
       = (\<lparr>commas = [], stops = [], marks = []\<rparr>, [''o'', ''k''])
   \<and> 1 \<notin> set (stops (fst (prepare_words demo_tokenize (spell_args\<lparr>reverse := Some Signal\<rparr>) ''ok.'')))"
proof -
  have p: "prepare_words demo_tokenize (spell_args\<lparr>reverse := Some Signal\<rparr>) ''ok.''
       = (\<lparr>commas = [], stops = [], marks = []\<rparr>, [''o'', ''k''])"
    by code_simp
  then show ?thesis by (simp add: spell_args_def)
qed

subsection \<open>The audio assembler: crossfade\<close>

lemma taper_length:
  assumes "ms10 \<le> length data" and "length t = ms10"
  shows "\<exists>d. taper mx data t = Inr d \<and> length d = length data"
  using assms by (simp add: taper_def np_broadcast_def Let_def min_absorb2)

lemma crossfade_unit_length:
  assumes "ms10 \<le> length data" and "\<not> first \<longrightarrow> (\<exists>t. prev = Some t \<and> length t = ms10)"
  shows "\<exists>d p. crossfade_unit lib first last_of_all data prev = Inr (d, p)
           \<and> length d + (if last_of_all then 0 else ms10) = length data
           \<and> (\<not> last_of_all \<longrightarrow> (\<exists>t. p = Some t \<and> length t = ms10))"
proof (cases first)
  case True
  then show ?thesis using assms(1) by (simp add: crossfade_unit_def)
next
  case False
  with assms(2) obtain t where t: "prev = Some t" "length t = ms10" by blast
  obtain d1 where d1: "taper (mix lib) data t = Inr d1" "length d1 = length data"
    using taper_length [OF assms(1) t(2)] by blast
  show ?thesis using False t d1 assms(1) by (simp add: crossfade_unit_def)
qed

lemma word_loop_crossfade_length:
  assumes "\<forall>l\<in>set rest. unit_ok lib dd l" and "j + length rest = n"
    and "j \<noteq> 0 \<longrightarrow> (\<exists>t. prev = Some t \<and> length t = ms10)"
  shows "\<exists>buf p. word_loop lib dd True last_word n j rest acc prev = Inr (buf, p)
           \<and> length buf + ms10 * held_back last_word (length rest)
               = length acc + sum_list (map (unit_length lib dd) rest)"
  using assms
proof (induction rest arbitrary: j acc prev)
  case Nil
  then show ?case by (simp add: held_back_def)
next
  case (Cons l rest)
  from Cons.prems(1) obtain f where f: "dd l = Some f" "ms10 \<le> length (load lib f)"
    by (auto simp: unit_ok_def split: option.splits)
  let ?last = "int j = int n - 1 \<and> last_word"
  have jn: "(int j = int n - 1) = (rest = [])"
    using Cons.prems(2) by auto
  obtain d p where dp: "crossfade_unit lib (j = 0) ?last (load lib f) prev = Inr (d, p)"
    and len: "length d + (if ?last then 0 else ms10) = length (load lib f)"
    and tail: "\<not> ?last \<longrightarrow> (\<exists>t. p = Some t \<and> length t = ms10)"
    using crossfade_unit_length [OF f(2), of "j = 0" prev lib ?last] Cons.prems(3) by auto
  have step: "word_loop lib dd True last_word n j (l # rest) acc prev
                = word_loop lib dd True last_word n (Suc j) rest (acc @ d) p"
    using f dp by simp
  show ?case
  proof (cases "rest = []")
    case True
    with step len jn show ?thesis
      by (simp add: held_back_def unit_length_def f split: if_splits)
  next
    case False
    with jn tail have p: "Suc j \<noteq> 0 \<longrightarrow> (\<exists>t. p = Some t \<and> length t = ms10)" by simp
    from Cons.prems(1) have ok: "\<forall>l\<in>set rest. unit_ok lib dd l" by simp
    from Cons.prems(2) have n: "Suc j + length rest = n" by simp
    obtain buf q where r: "word_loop lib dd True last_word n (Suc j) rest (acc @ d) p = Inr (buf, q)"
      and l: "length buf + ms10 * held_back last_word (length rest)
                = length (acc @ d) + sum_list (map (unit_length lib dd) rest)"
      using Cons.IH [OF ok n p, of "acc @ d"] by blast
    have hb: "held_back last_word (length (l # rest)) = Suc (held_back last_word (length rest))"
      using False by (cases rest) (simp_all add: held_back_def)
    from jn False len have "length d + ms10 = length (load lib f)" by simp
    with l hb have "length buf + ms10 * held_back last_word (length (l # rest))
                = length acc + sum_list (map (unit_length lib dd) (l # rest))"
      by (simp add: unit_length_def f)
    with step r show ?thesis by simp
  qed
qed

text \<open>
  C3, as amended. With crossfade enabled, when every diphone of a word has a unit of at
  least 160 samples, the inner loop returns the word's buffer (before any pause is
  appended), and its sample count is the sum of the unit lengths minus 160 for every
  diphone of the word, except in the last word of the utterance, where the final
  diphone contributes its full length and 160 is taken off for the others only.
\<close>

theorem crossfade_word_sample_count:
  "(\<forall>l\<in>set word. unit_ok lib dd l) \<longrightarrow>
     (\<exists>buf p. word_loop lib dd True last_word (length word) 0 word [] prev = Inr (buf, p)
        \<and> length buf + ms10 * (if last_word then length word - 1 else length word)
             = sum_list (map (unit_length lib dd) word)
        \<and> length buf = sum_list (map (unit_length lib dd) word)
             - 160 * (if last_word then length word - 1 else length word))"
proof
  assume ok: "\<forall>l\<in>set word. unit_ok lib dd l"
  obtain buf p where r: "word_loop lib dd True last_word (length word) 0 word [] prev = Inr (buf, p)"
    and l: "length buf + ms10 * held_back last_word (length word)
                = length ([] :: buffer) + sum_list (map (unit_length lib dd) word)"
    using word_loop_crossfade_length [OF ok, of 0 "length word" prev last_word "[]"] by auto
  from l have "length buf + ms10 * (if last_word then length word - 1 else length word)
             = sum_list (map (unit_length lib dd) word)"
    by (simp add: held_back_def)
  moreover from this have "length buf = sum_list (map (unit_length lib dd) word)
             - 160 * (if last_word then length word - 1 else length word)"
    by (simp add: ms10_def split: if_splits)
  ultimately show "\<exists>buf p. word_loop lib dd True last_word (length word) 0 word [] prev = Inr (buf, p)
        \<and> length buf + ms10 * (if last_word then length word - 1 else length word)
             = sum_list (map (unit_length lib dd) word)
        \<and> length buf = sum_list (map (unit_length lib dd) word)
             - 160 * (if last_word then length word - 1 else length word)"
    using r by blast
qed

lemma demo_dict_files:
  "load_diphone_data demo_wav_files ''a-b'' = Some ''diphones/a-b.wav''"
  "load_diphone_data demo_wav_files ''c-d'' = Some ''diphones/c-d.wav''"
  by (simp_all add: load_diphone_data_def demo_wav_files_def diphone_key_def)

theorem crossfade_word_sample_count_witness:
  "unit_ok demo_units (load_diphone_data demo_wav_files) ''a-b''
   \<and> unit_ok demo_units (load_diphone_data demo_wav_files) ''c-d''
   \<and> map_sum id (\<lambda>r. length (fst r))
        (word_loop demo_units (load_diphone_data demo_wav_files) True False
           (length [''a-b'', ''c-d'']) 0 [''a-b'', ''c-d''] [] None) = Inr 80
   \<and> map_sum id (\<lambda>r. length (fst r))
        (word_loop demo_units (load_diphone_data demo_wav_files) True True
           (length [''a-b'', ''c-d'']) 0 [''a-b'', ''c-d''] [] None) = Inr 240"
proof -
  let ?dd = "load_diphone_data demo_wav_files"
  let ?w = "[''a-b'', ''c-d'']"
  have ok: "unit_ok demo_units ?dd ''a-b''" "unit_ok demo_units ?dd ''c-d''"
    by (simp_all add: unit_ok_def demo_dict_files demo_units_def ms10_def)
  then have all: "\<forall>l\<in>set ?w. unit_ok demo_units ?dd l" by simp
  have total: "sum_list (map (unit_length demo_units ?dd) ?w) = 400"
    by (simp add: unit_length_def demo_dict_files demo_units_def)
  from crossfade_word_sample_count [of ?w demo_units ?dd False None] all
  obtain buf p where r: "word_loop demo_units ?dd True False (length ?w) 0 ?w [] None = Inr (buf, p)"
    and l: "length buf = sum_list (map (unit_length demo_units ?dd) ?w)
               - 160 * (if False then length ?w - 1 else length ?w)"
    by blast
  from l total have "length buf = 80" by simp
  then have a: "map_sum id (\<lambda>r. length (fst r))
        (word_loop demo_units ?dd True False (length ?w) 0 ?w [] None) = Inr 80"
    unfolding r by simp
  from crossfade_word_sample_count [of ?w demo_units ?dd True None] all
  obtain buf' p' where r': "word_loop demo_units ?dd True True (length ?w) 0 ?w [] None = Inr (buf', p')"
    and l': "length buf' = sum_list (map (unit_length demo_units ?dd) ?w)
               - 160 * (if True then length ?w - 1 else length ?w)"
    by blast
  from l' total have "length buf' = 240" by simp
  then have b: "map_sum id (\<lambda>r. length (fst r))
        (word_loop demo_units ?dd True True (length ?w) 0 ?w [] None) = Inr 240"
    unfolding r' by simp
  from ok a b show ?thesis by blast
qed

text \<open>
  The claim C3 as stated gives \<open>sum - 160 * (n - 1)\<close> for every word. For the first
  word of two, with its single unit of 200 samples, that is 200, but line 376 cuts the
  last 160 samples off this unit too, and the word's buffer has 40 samples.
\<close>

theorem crossfade_first_word_counterexample:
  "word_loop demo_units (load_diphone_data demo_wav_files) True False (length [''a-b'']) 0 [''a-b''] [] None
     = Inr (replicate 40 7, Some (replicate 160 7))
   \<and> sum_list (map (unit_length demo_units (load_diphone_data demo_wav_files)) [''a-b''])
        - 160 * (length [''a-b''] - 1) = 200
   \<and> length (replicate 40 (7::int)) \<noteq> 200"
  by (simp add: demo_dict_files crossfade_unit_def demo_units_def ms10_def unit_length_def)

lemma demo_taper:
  "taper demo_mix (replicate 200 9) (replicate 160 7)
     = Inr (map (\<lambda>k. demo_mix k 9 7) [0..<160] @ replicate 40 9)"
  by (simp add: taper_def np_broadcast_def ms10_def Let_def cong: map_cong)

text \<open>
  C4. The taper is not applied between words. With the two diphones in two words, the
  last 160 samples of the first unit are cut off (line 376) and kept, but the second
  unit is the first of its word (\<open>j==0\<close> on line 368), so nothing is blended into it: it
  is appended as it was loaded, and the samples cut off are lost. With the same two
  diphones in one word the first 160 samples of the second unit are the blend.
\<close>

theorem crossfade_skips_word_boundary:
  "diphones_to_wav demo_units crossfade_args no_markup (load_diphone_data demo_wav_files)
       [[''a-b''], [''c-d'']]
     = Inr (replicate 40 7 @ replicate 200 9)
   \<and> diphones_to_wav demo_units crossfade_args no_markup (load_diphone_data demo_wav_files)
       [[''a-b'', ''c-d'']]
     = Inr (replicate 40 7 @ map (\<lambda>k. demo_mix k 9 7) [0..<160] @ replicate 40 9)"
  by (simp add: diphones_to_wav_def crossfade_args_def finish_word_def no_markup_def
        apply_volume_def apply_reverse_def demo_dict_files crossfade_unit_def demo_units_def
        ms10_def demo_taper)

subsection \<open>The audio assembler: pauses\<close>

text \<open>
  C5, as amended. After the diphones of word \<open>i\<close> the source tests the comma list and
  then, independently, the stop list: 200 ms of silence (3200 samples) are appended
  when \<open>i\<close> is in the comma list, then 400 ms (6400 samples) when it is in the stop list,
  before an emphasised word is rescaled. For an index that is not in both lists this is
  the rule of the claim: 400 ms for a stop, else 200 ms for a comma, else nothing.
\<close>

theorem pauses_appended_independently:
  "finish_word lib m i word_audio
     = (if int i \<in> set (marks m) then rescale lib 1 else id)
         (word_audio @ (if int i \<in> set (commas m) then silence ms200 else [])
                     @ (if int i \<in> set (stops m) then silence ms400 else []))
   \<and> words_loop lib dd cf m n i (word # rest) synth_audio prev
     = (case word_loop lib dd cf (int i = int n - 1) (length word) 0 word [] prev of
          Inl e \<Rightarrow> Inl e
        | Inr (word_audio, p) \<Rightarrow>
            words_loop lib dd cf m n (Suc i) rest (synth_audio @ finish_word lib m i word_audio) p)
   \<and> (\<not> (int i \<in> set (commas m) \<and> int i \<in> set (stops m)) \<and> int i \<notin> set (marks m) \<longrightarrow>
        finish_word lib m i word_audio
          = word_audio @ (if int i \<in> set (stops m) then silence ms400
                          else if int i \<in> set (commas m) then silence ms200 else []))
   \<and> length (silence ms200) = 3200 \<and> length (silence ms400) = 6400"
  by (simp add: finish_word_def silence_def ms200_def ms400_def)

theorem pauses_appended_independently_witness:
  "\<not> (int 0 \<in> set (commas \<lparr>commas = [0], stops = [1], marks = []\<rparr>)
        \<and> int 0 \<in> set (stops \<lparr>commas = [0], stops = [1], marks = []\<rparr>))
   \<and> int 0 \<notin> set (marks \<lparr>commas = [0], stops = [1], marks = []\<rparr>)
   \<and> finish_word demo_units \<lparr>commas = [0], stops = [1], marks = []\<rparr> 0 [1, 2, 3] = [1, 2, 3] @ silence ms200
   \<and> finish_word demo_units \<lparr>commas = [0], stops = [1], marks = []\<rparr> 1 [1, 2, 3] = [1, 2, 3] @ silence ms400"
  using pauses_appended_independently [of demo_units "\<lparr>commas = [0], stops = [1], marks = []\<rparr>" 0 "[1, 2, 3]"]
    pauses_appended_independently [of demo_units "\<lparr>commas = [0], stops = [1], marks = []\<rparr>" 1 "[1, 2, 3]"]
  by simp

text \<open>
  The claim C5 as stated allows one silence at most. For a word whose index is in both
  lists, both are appended: 9600 samples of silence after the 200 of the unit.
\<close>

theorem comma_and_stop_both_silences:
  "diphones_to_wav demo_units plain_args \<lparr>commas = [0], stops = [0], marks = []\<rparr>
       (load_diphone_data demo_wav_files) [[''a-b'']]
     = Inr (replicate 200 7 @ silence ms200 @ silence ms400)
   \<and> length (replicate 200 (7::int) @ silence ms200 @ silence ms400) = 200 + 3200 + 6400"
  by (simp add: diphones_to_wav_def plain_args_def finish_word_def silence_def ms200_def ms400_def
        apply_volume_def apply_reverse_def demo_dict_files demo_units_def)

subsection \<open>The audio assembler: volume\<close>

text \<open>
  C8, as amended. With the volume unset the buffer of the loop is returned as it is
  (reversed for the signal mode). With volume 100 it is passed through \<open>rescale\<close> with
  the value 1, the call that line 389 makes for an emphasised word, so volume 100 leaves
  the samples alone exactly as far as that call of the library does.
\<close>

theorem volume_100_is_rescale_1:
  "diphones_to_wav lib (a\<lparr>volume := None, reverse := None\<rparr>) m dd dps
     = words_loop lib dd (crossfade a) m (length dps) 0 dps [] None
   \<and> (volume a = None \<longrightarrow>
        diphones_to_wav lib a m dd dps
          = map_sum id (apply_reverse (reverse a)) (words_loop lib dd (crossfade a) m (length dps) 0 dps [] None))
   \<and> (volume a = Some 100 \<longrightarrow>
        diphones_to_wav lib a m dd dps
          = map_sum id (\<lambda>synth_audio. apply_reverse (reverse a) (rescale lib 1 synth_audio))
              (words_loop lib dd (crossfade a) m (length dps) 0 dps [] None))
   \<and> (int i \<in> set (marks m) \<longrightarrow>
        finish_word lib m i word_audio
          = rescale lib 1 (finish_word lib (m\<lparr>marks := []\<rparr>) i word_audio))
   \<and> (volume a = Some 100 \<and> (\<forall>data. rescale lib 1 data = data) \<longrightarrow>
        diphones_to_wav lib a m dd dps = diphones_to_wav lib (a\<lparr>volume := None\<rparr>) m dd dps)"
  by (auto simp: diphones_to_wav_def apply_volume_def apply_reverse_def finish_word_def Let_def
        split: sum.splits)

theorem volume_100_is_rescale_1_witness:
  "volume full_volume_args = Some 100
   \<and> (\<forall>data. rescale demo_units 1 data = data)
   \<and> diphones_to_wav demo_units full_volume_args no_markup (load_diphone_data demo_wav_files) [[''a-b'']]
       = diphones_to_wav demo_units (full_volume_args\<lparr>volume := None\<rparr>) no_markup
           (load_diphone_data demo_wav_files) [[''a-b'']]
   \<and> volume plain_args = None
   \<and> diphones_to_wav demo_units plain_args no_markup (load_diphone_data demo_wav_files) [[''a-b'']]
       = Inr (replicate 200 7)"
proof -
  let ?dd = "load_diphone_data demo_wav_files"
  have v: "volume full_volume_args = Some 100" "volume plain_args = None"
    by (simp_all add: full_volume_args_def plain_args_def)
  have r: "\<forall>data. rescale demo_units 1 data = data"
    by (simp add: demo_units_def)
  have w: "words_loop demo_units ?dd (crossfade plain_args) no_markup (length [[''a-b'']]) 0 [[''a-b'']] [] None
             = Inr (replicate 200 7)"
    by (simp add: plain_args_def demo_dict_files demo_units_def finish_word_def no_markup_def)
  have n: "reverse plain_args = None"
    by (simp add: plain_args_def)
  from volume_100_is_rescale_1 [of demo_units full_volume_args no_markup ?dd "[[''a-b'']]"] v r
  have a: "diphones_to_wav demo_units full_volume_args no_markup ?dd [[''a-b'']]
       = diphones_to_wav demo_units (full_volume_args\<lparr>volume := None\<rparr>) no_markup ?dd [[''a-b'']]"
    by blast
  from volume_100_is_rescale_1 [of demo_units plain_args no_markup ?dd "[[''a-b'']]"] v
  have "diphones_to_wav demo_units plain_args no_markup ?dd [[''a-b'']]
          = map_sum id (apply_reverse (reverse plain_args))
              (words_loop demo_units ?dd (crossfade plain_args) no_markup (length [[''a-b'']]) 0 [[''a-b'']] [] None)"
    by blast
  then have b: "diphones_to_wav demo_units plain_args no_markup ?dd [[''a-b'']] = Inr (replicate 200 7)"
    unfolding w n by (simp add: apply_reverse_def)
  from v r a b show ?thesis by blast
qed

lemma demo_rescale_to_peak: "rescale_to_peak 1 [100, - 100] = [32767, - 32767]"
  by (simp add: rescale_to_peak_def full_scale_def to_sample_def Let_def)

text \<open>
  The claim C8 as stated makes volume 100 the identity. With the \<open>rescale\<close> that the
  specification describes for the same call, the samples 100 and -100 become 32767 and
  -32767; with the volume unset they stay.
\<close>

theorem volume_100_counterexample:
  "diphones_to_wav peak_units plain_args no_markup (load_diphone_data demo_wav_files) [[''a-b'']]
     = Inr [100, - 100]
   \<and> diphones_to_wav peak_units full_volume_args no_markup (load_diphone_data demo_wav_files) [[''a-b'']]
     = Inr [32767, - 32767]"
  by (simp add: diphones_to_wav_def plain_args_def full_volume_args_def finish_word_def no_markup_def
        apply_volume_def apply_reverse_def peak_units_def demo_dict_files demo_rescale_to_peak)

subsection \<open>The unit library\<close>

lemma diphone_key_length:
  "length (diphone_key (prefix @ name @ ''.wav'')) = length prefix + length name - 9"
  by (simp add: diphone_key_def)

lemma diphone_key_prefix_9:
  "length prefix = 9 \<Longrightarrow> diphone_key (prefix @ name @ ''.wav'') = name"
  by (simp add: diphone_key_def)

lemma diphone_key_other_prefix:
  assumes "name \<noteq> []" and "length prefix \<noteq> 9"
  shows "diphone_key (prefix @ name @ ''.wav'') \<noteq> name"
proof
  assume "diphone_key (prefix @ name @ ''.wav'') = name"
  then have "length prefix + length name - 9 = length name"
    using diphone_key_length [of prefix name] by simp
  with assms show False by (cases name) auto
qed

lemma diphone_key_long_prefix:
  assumes "9 < length prefix"
  shows "diphone_key (prefix @ name @ ''.wav'') = drop 9 prefix @ name"
  using assms by (simp add: diphone_key_def)

lemma load_diphone_data_foldl_Some:
  "foldl (\<lambda>d wav_file. d(diphone_key wav_file \<mapsto> wav_file)) d0 files l = Some f
     \<Longrightarrow> (f \<in> set files \<and> diphone_key f = l) \<or> d0 l = Some f"
  by (induction files arbitrary: d0) (fastforce split: if_splits)+

lemma load_diphone_data_foldl_None:
  "l \<notin> diphone_key ` set files \<Longrightarrow> d0 l = None
     \<Longrightarrow> foldl (\<lambda>d wav_file. d(diphone_key wav_file \<mapsto> wav_file)) d0 files l = None"
  by (induction files arbitrary: d0) auto

lemma load_diphone_data_Some:
  "load_diphone_data files l = Some f \<Longrightarrow> f \<in> set files \<and> diphone_key f = l"
  using load_diphone_data_foldl_Some [of Map.empty files l f] by (simp add: load_diphone_data_def)

lemma load_diphone_data_None:
  "l \<notin> diphone_key ` set files \<Longrightarrow> load_diphone_data files l = None"
  using load_diphone_data_foldl_None [of l files Map.empty] by (simp add: load_diphone_data_def)

lemma first_label_missing:
  "dd l = None \<Longrightarrow> diphones_to_wav lib a m dd ((l # word) # rest) = Inl (MissingUnitError l)"
  by (simp add: diphones_to_wav_def)

text \<open>
  C10, as amended. The key of a wav file is the slice \<open>wav_file[9:-4]\<close> of its path.
  For a path made of a prefix, a name and \<open>.wav\<close> the key is the name when the prefix
  has 9 characters, and for a non-empty name only then. A lookup finds a label only as
  the slice of the path of some file; when no slice is the first label of the utterance
  the synthesis ends with the missing-unit error for it. This is so for every label
  without a slash when all files share a prefix longer than 9 characters that ends in a
  slash.
\<close>

theorem diphone_key_needs_prefix_of_9:
  "(length prefix = 9 \<longrightarrow> diphone_key (prefix @ name @ ''.wav'') = name)
   \<and> (name \<noteq> [] \<and> length prefix \<noteq> 9 \<longrightarrow> diphone_key (prefix @ name @ ''.wav'') \<noteq> name)
   \<and> (load_diphone_data files l = Some f \<longrightarrow> f \<in> set files \<and> diphone_key f = l)
   \<and> (l \<notin> diphone_key ` set files \<longrightarrow>
        load_diphone_data files l = None
        \<and> diphones_to_wav lib a m (load_diphone_data files) ((l # word) # rest) = Inl (MissingUnitError l))
   \<and> (9 < length prefix \<and> last prefix = CHR ''/'' \<and> CHR ''/'' \<notin> set l
        \<and> (\<forall>f\<in>set files. \<exists>name. f = prefix @ name @ ''.wav'') \<longrightarrow>
        load_diphone_data files l = None
        \<and> diphones_to_wav lib a m (load_diphone_data files) ((l # word) # rest) = Inl (MissingUnitError l))"
proof -
  have long: "load_diphone_data files l = None"
    if h: "9 < length prefix" "last prefix = CHR ''/''" "CHR ''/'' \<notin> set l"
      "\<forall>f\<in>set files. \<exists>name. f = prefix @ name @ ''.wav''"
  proof (rule load_diphone_data_None, rule notI)
    assume "l \<in> diphone_key ` set files"
    then obtain f where f: "f \<in> set files" "l = diphone_key f" by blast
    with h(4) obtain name where "f = prefix @ name @ ''.wav''" by blast
    with f h(1) have l: "l = drop 9 prefix @ name"
      by (simp add: diphone_key_long_prefix)
    from h(1) have "drop 9 prefix \<noteq> []" by simp
    then have "last (drop 9 prefix) \<in> set (drop 9 prefix)" by (rule last_in_set)
    moreover from h(1) have "last (drop 9 prefix) = last prefix" by simp
    ultimately have "CHR ''/'' \<in> set l" using h(2) l by simp
    with h(3) show False by simp
  qed
  have c1: "length prefix = 9 \<longrightarrow> diphone_key (prefix @ name @ ''.wav'') = name"
    by (simp add: diphone_key_prefix_9)
  have c2: "name \<noteq> [] \<and> length prefix \<noteq> 9 \<longrightarrow> diphone_key (prefix @ name @ ''.wav'') \<noteq> name"
    using diphone_key_other_prefix [of name prefix] by simp
  have c3: "load_diphone_data files l = Some f \<longrightarrow> f \<in> set files \<and> diphone_key f = l"
    using load_diphone_data_Some [of files l f] by simp
  have c4: "l \<notin> diphone_key ` set files \<longrightarrow>
        load_diphone_data files l = None
        \<and> diphones_to_wav lib a m (load_diphone_data files) ((l # word) # rest) = Inl (MissingUnitError l)"
  proof
    assume "l \<notin> diphone_key ` set files"
    then have n: "load_diphone_data files l = None" by (rule load_diphone_data_None)
    from n first_label_missing [of "load_diphone_data files" l, OF n]
    show "load_diphone_data files l = None
        \<and> diphones_to_wav lib a m (load_diphone_data files) ((l # word) # rest) = Inl (MissingUnitError l)"
      by (rule conjI)
  qed
  have c5: "9 < length prefix \<and> last prefix = CHR ''/'' \<and> CHR ''/'' \<notin> set l
        \<and> (\<forall>f\<in>set files. \<exists>name. f = prefix @ name @ ''.wav'') \<longrightarrow>
        load_diphone_data files l = None
        \<and> diphones_to_wav lib a m (load_diphone_data files) ((l # word) # rest) = Inl (MissingUnitError l)"
  proof
    assume h: "9 < length prefix \<and> last prefix = CHR ''/'' \<and> CHR ''/'' \<notin> set l
        \<and> (\<forall>f\<in>set files. \<exists>name. f = prefix @ name @ ''.wav'')"
    have n: "load_diphone_data files l = None"
      by (rule long) (use h in simp_all)
    from n first_label_missing [of "load_diphone_data files" l, OF n]
    show "load_diphone_data files l = None
        \<and> diphones_to_wav lib a m (load_diphone_data files) ((l # word) # rest) = Inl (MissingUnitError l)"
      by (rule conjI)
  qed
  from c1 c2 c3 c4 c5 show ?thesis by (intro conjI)
qed

theorem diphone_key_needs_prefix_of_9_witness:
  "length ''diphones/'' = 9
   \<and> diphone_key (''diphones/'' @ ''a-b'' @ ''.wav'') = ''a-b''
   \<and> ''a-b'' \<noteq> [] \<and> length ''diphones2/'' \<noteq> 9
   \<and> diphone_key (''diphones2/'' @ ''a-b'' @ ''.wav'') \<noteq> ''a-b''
   \<and> 9 < length ''diphones2/'' \<and> last ''diphones2/'' = CHR ''/'' \<and> CHR ''/'' \<notin> set ''a-b''
   \<and> ''diphones2/a-b.wav'' = ''diphones2/'' @ ''a-b'' @ ''.wav''
   \<and> ''diphones2/c-d.wav'' = ''diphones2/'' @ ''c-d'' @ ''.wav''
   \<and> load_diphone_data [''diphones2/a-b.wav'', ''diphones2/c-d.wav''] ''a-b'' = None
   \<and> diphones_to_wav demo_units plain_args no_markup
        (load_diphone_data [''diphones2/a-b.wav'', ''diphones2/c-d.wav'']) [[''a-b'']]
       = Inl (MissingUnitError ''a-b'')"
proof -
  let ?files = "[''diphones2/a-b.wav'', ''diphones2/c-d.wav'']"
  note inst1 = diphone_key_needs_prefix_of_9
    [of "''diphones/''" "''a-b''" "[]" "[]" "[]" demo_units plain_args no_markup "[]" "[]"]
  note inst2 = diphone_key_needs_prefix_of_9
    [of "''diphones2/''" "''a-b''" ?files "''a-b''" "[]" demo_units plain_args no_markup "[]" "[]"]
  have h1: "length ''diphones/'' = 9" by simp
  have h2: "''a-b'' \<noteq> []" and h2': "length ''diphones2/'' \<noteq> 9" by simp_all
  have h3: "9 < length ''diphones2/''" and h3': "last ''diphones2/'' = CHR ''/''"
    and h3'': "CHR ''/'' \<notin> set ''a-b''"
    by simp_all
  have f1: "''diphones2/a-b.wav'' = ''diphones2/'' @ ''a-b'' @ ''.wav''"
    and f2: "''diphones2/c-d.wav'' = ''diphones2/'' @ ''c-d'' @ ''.wav''"
    by simp_all
  have h5: "\<forall>f\<in>set ?files. \<exists>name. f = ''diphones2/'' @ name @ ''.wav''"
  proof
    fix f
    assume "f \<in> set ?files"
    then consider "f = ''diphones2/a-b.wav''" | "f = ''diphones2/c-d.wav''" by auto
    then show "\<exists>name. f = ''diphones2/'' @ name @ ''.wav''"
    proof cases
      case 1
      then have "f = ''diphones2/'' @ ''a-b'' @ ''.wav''" by simp
      then show ?thesis by (intro exI)
    next
      case 2
      then have "f = ''diphones2/'' @ ''c-d'' @ ''.wav''" by simp
      then show ?thesis by (intro exI)
    qed
  qed
  have a: "diphone_key (''diphones/'' @ ''a-b'' @ ''.wav'') = ''a-b''"
    by (rule inst1 [THEN conjunct1, THEN mp, OF h1])
  have b: "diphone_key (''diphones2/'' @ ''a-b'' @ ''.wav'') \<noteq> ''a-b''"
    by (rule inst2 [THEN conjunct2, THEN conjunct1, THEN mp, OF conjI [OF h2 h2']])
  have ante: "9 < length ''diphones2/'' \<and> last ''diphones2/'' = CHR ''/'' \<and> CHR ''/'' \<notin> set ''a-b''
        \<and> (\<forall>f\<in>set ?files. \<exists>name. f = ''diphones2/'' @ name @ ''.wav'')"
    using h3 h3' h3'' h5 by (intro conjI)
  note both = inst2 [THEN conjunct2, THEN conjunct2, THEN conjunct2, THEN conjunct2, THEN mp, OF ante]
  have c: "load_diphone_data ?files ''a-b'' = None"
    by (rule both [THEN conjunct1])
  have d: "diphones_to_wav demo_units plain_args no_markup (load_diphone_data ?files) [[''a-b'']]
       = Inl (MissingUnitError ''a-b'')"
    by (rule both [THEN conjunct2])
  from h1 a h2 h2' b h3 h3' h3'' f1 f2 c d show ?thesis by (intro conjI)
qed

text \<open>
  The claim C10 as stated has every lookup miss, and every synthesis fail, when the
  prefix is not 9 characters long. With the 8 characters of \<open>diphone/\<close> the file of
  \<open>ng-g\<close> is found under the label \<open>g-g\<close>, and with the 4 characters of \<open>dip/\<close> files
  named with five more characters are found under their diphones and the utterance is
  synthesized.
\<close>

theorem shifted_names_counterexample:
  "length ''dip/'' \<noteq> 9
   \<and> load_diphone_data [''diphone/ng-g.wav''] ''g-g'' = Some ''diphone/ng-g.wav''
   \<and> load_diphone_data shifted_wav_files ''pau-ah'' = Some (''dip/'' @ ''xxxxxpau-ah'' @ ''.wav'')
   \<and> diphones_to_wav demo_units plain_args no_markup (load_diphone_data shifted_wav_files)
        [[''pau-ah'', ''ah-pau'']]
       = Inr (replicate 200 9 @ replicate 200 9)"
  by (simp add: load_diphone_data_def shifted_wav_files_def diphone_key_def diphones_to_wav_def
        plain_args_def finish_word_def no_markup_def apply_volume_def apply_reverse_def
        demo_units_def)

end
